theory Spec2Isabelle
  imports Main
begin

section \<open>Syntax trees of the source tree provider\<close>

text \<open>
  The program works on the syntax trees of ts-morph. A node has a syntax kind and a sequence
  of pieces: token text (keywords, punctuation, white space and comments between the
  children) and child nodes, in source order. The children are the nodes that the
  compiler's \<^verbatim>\<open>forEachChild\<close> visits, so the parent of a call argument is the call
  expression. The text of a node is the concatenation of its pieces. The operator of a
  prefix unary expression is the first piece of the node, a token of its own.
  A call expression keeps its callee as first child and its arguments after it; type
  arguments, which the program never reads, stay in the token text.
  A character stands for one UTF-16 code unit.
\<close>

datatype SyntaxKind =
    SourceFileKind
  | ImportDeclaration
  | ImportSpecifier
  | FunctionDeclaration
  | Block
  | ReturnStatement
  | IfStatement
  | ExpressionStatement
  | VariableStatement
  | VariableDeclaration
  | CallExpression
  | PropertyAccessExpression
  | PrefixUnaryExpression
  | Identifier
  | StringLiteral
  | TrueKeyword
  | FalseKeyword
  | ExclamationToken
  | OtherKind string

datatype node = Node SyntaxKind "piece list"
  and piece = Tok string | Child node

fun getKind :: "node \<Rightarrow> SyntaxKind" where
  "getKind (Node k ps) = k"

fun childrenOfPieces :: "piece list \<Rightarrow> node list" where
  "childrenOfPieces [] = []"
| "childrenOfPieces (Tok s # ps) = childrenOfPieces ps"
| "childrenOfPieces (Child c # ps) = c # childrenOfPieces ps"

fun getChildren :: "node \<Rightarrow> node list" where
  "getChildren (Node k ps) = childrenOfPieces ps"

fun getText :: "node \<Rightarrow> string"
  and piecesText :: "piece list \<Rightarrow> string" where
  "getText (Node k ps) = piecesText ps"
| "piecesText [] = []"
| "piecesText (Tok s # ps) = s @ piecesText ps"
| "piecesText (Child c # ps) = getText c @ piecesText ps"

text \<open>All descendants in depth-first pre-order, the order of \<^verbatim>\<open>forEachDescendant\<close>.\<close>

fun getDescendants :: "node \<Rightarrow> node list"
  and piecesDescendants :: "piece list \<Rightarrow> node list" where
  "getDescendants (Node k ps) = piecesDescendants ps"
| "piecesDescendants [] = []"
| "piecesDescendants (Tok s # ps) = piecesDescendants ps"
| "piecesDescendants (Child c # ps) = c # getDescendants c @ piecesDescendants ps"

definition getDescendantsOfKind :: "SyntaxKind \<Rightarrow> node \<Rightarrow> node list" where
  "getDescendantsOfKind k n = filter (\<lambda>d. getKind d = k) (getDescendants n)"

definition getFirstDescendantByKind :: "SyntaxKind \<Rightarrow> node \<Rightarrow> node option" where
  "getFirstDescendantByKind k n = find (\<lambda>d. getKind d = k) (getDescendants n)"

text \<open>
  \<^verbatim>\<open>getExpression\<close> of a return statement (absent in a bare \<^verbatim>\<open>return;\<close>) and of a
  call expression (the callee) is the first child; \<^verbatim>\<open>getExpressionIfKind\<close> gives it
  only when it has the kind asked for.
\<close>

definition getExpression :: "node \<Rightarrow> node option" where
  "getExpression n = (case getChildren n of [] \<Rightarrow> None | e # _ \<Rightarrow> Some e)"

definition getExpressionIfKind :: "SyntaxKind \<Rightarrow> node \<Rightarrow> node option" where
  "getExpressionIfKind k n =
     (case getExpression n of
        None \<Rightarrow> None
      | Some e \<Rightarrow> if getKind e = k then Some e else None)"

definition getArguments :: "node \<Rightarrow> node list" where
  "getArguments call = tl (getChildren call)"

text \<open>\<^verbatim>\<open>getName\<close> of a property access \<^verbatim>\<open>e.name\<close>: the text of the name node, its last child.\<close>

definition getName :: "node \<Rightarrow> string" where
  "getName n = (case rev (getChildren n) of [] \<Rightarrow> [] | nm # _ \<Rightarrow> getText nm)"

text \<open>\<^verbatim>\<open>getName\<close> of an import specifier: the text of its first identifier.\<close>

definition getImportName :: "node \<Rightarrow> string" where
  "getImportName n = (case getChildren n of [] \<Rightarrow> [] | nm # _ \<Rightarrow> getText nm)"

section \<open>Host values: strings and dates\<close>

text \<open>
  A JavaScript \<^verbatim>\<open>Date\<close> holds a time value in milliseconds or NaN (an invalid date).
  \<^verbatim>\<open>a < b\<close> on two dates compares the time values and is false when one is NaN.
\<close>

datatype Date = Time int | InvalidDate

fun dateLess :: "Date \<Rightarrow> Date \<Rightarrow> bool" where
  "dateLess (Time a) (Time b) = (a < b)"
| "dateLess _ _ = False"

text \<open>
  \<^verbatim>\<open>s.substring(a, b)\<close>: both indices are clamped to the length of the string and
  swapped when the first is the larger.
\<close>

definition substring :: "string \<Rightarrow> int \<Rightarrow> int \<Rightarrow> string" where
  "substring s a b =
     (let n = int (length s);
          a' = min (max a 0) n;
          b' = min (max b 0) n;
          lo = min a' b';
          hi = max a' b'
      in take (nat (hi - lo)) (drop (nat lo) s))"

fun startsWith :: "string \<Rightarrow> string \<Rightarrow> bool" where
  "startsWith s [] = True"
| "startsWith [] (c # cs) = False"
| "startsWith (x # xs) (c # cs) = (x = c \<and> startsWith xs cs)"

fun includesText :: "string \<Rightarrow> string \<Rightarrow> bool" where
  "includesText [] t = (t = [])"
| "includesText (x # xs) t = (startsWith (x # xs) t \<or> includesText xs t)"

definition toLowerChar :: "char \<Rightarrow> char" where
  "toLowerChar c =
     (let n = (of_char c :: nat)
      in if 65 \<le> n \<and> n \<le> 90 then char_of (n + 32) else c)"

text \<open>The regular expression \<^verbatim>\<open>/killswitch/i\<close>: the word occurs, in any letter case.\<close>

definition testKillswitch :: "string \<Rightarrow> bool" where
  "testKillswitch name = includesText (map toLowerChar name) ''killswitch''"

text \<open>Truthiness of an optional string: present and not empty.\<close>

fun truthy :: "string option \<Rightarrow> bool" where
  "truthy None = False"
| "truthy (Some s) = (s \<noteq> [])"

section \<open>The declaration locator\<close>

definition KS_ACTIVATED_METHOD :: string where
  "KS_ACTIVATED_METHOD = ''isActivated''"

record ICoreOptions =
  targetId :: "string option"
  ksFilePath :: "string option"
  thresholdDate :: "Date option"

record SourceFile =
  filePath :: string
  root :: node

text \<open>
  A project gives its source files and looks a file up by path; how a path is resolved is
  the provider's business, and \<open>None\<close> stands for the exception of
  \<^verbatim>\<open>getSourceFileOrThrow\<close>.
\<close>

record Project =
  getSourceFiles :: "SourceFile list"
  getSourceFileOrThrow :: "string \<Rightarrow> SourceFile option"

text \<open>
  A function declaration of the result is a handle: the file and the position of the
  declaration among the children of the file.
\<close>

type_synonym FunDecl = "SourceFile \<times> nat"

definition declNode :: "FunDecl \<Rightarrow> node" where
  "declNode d = getChildren (root (fst d)) ! snd d"

record IFindKSResult =
  ksDecls :: "FunDecl list"
  guids :: "string list"

text \<open>
  What the program takes from its host and from modules that are not part of the listing:
  \<^verbatim>\<open>Date.parse\<close> (also the parser of \<^verbatim>\<open>new Date(string)\<close>), \<^verbatim>\<open>validate\<close> of the
  package uuid, the helper \<^verbatim>\<open>extractDateFromComments\<close>, and the clock at the time the
  module is loaded.
\<close>

record Host =
  dateParse :: "string \<Rightarrow> Date"
  uuidValidate :: "string \<Rightarrow> bool"
  extractDateFromComments :: "FunDecl \<Rightarrow> string option"
  loadTime :: int

definition defaultDate :: "Host \<Rightarrow> Date" where
  "defaultDate h = Time (loadTime h - 1000 * 60 * 60 * 24 * 180)"

text \<open>\<^verbatim>\<open>ksFile.getChildrenOfKind(SyntaxKind.FunctionDeclaration)\<close>, as handles.\<close>

definition funDeclsOf :: "SourceFile \<Rightarrow> FunDecl list" where
  "funDeclsOf f =
     map (\<lambda>i. (f, i))
       (filter (\<lambda>i. getKind (getChildren (root f) ! i) = FunctionDeclaration)
          [0 ..< length (getChildren (root f))])"

text \<open>
  The structural test of the loop body: the call expression of the first return statement
  among the descendants, when its callee is a property access named \<^verbatim>\<open>isActivated\<close>.
\<close>

definition ksCall :: "node \<Rightarrow> node option" where
  "ksCall funDecl =
     (let returnStatement = getFirstDescendantByKind ReturnStatement funDecl;
          callExp = Option.bind returnStatement (getExpressionIfKind CallExpression);
          accessExp = Option.bind callExp (getExpressionIfKind PropertyAccessExpression)
      in if map_option getName accessExp \<noteq> Some KS_ACTIVATED_METHOD then None else callExp)"

definition argumentText :: "node \<Rightarrow> nat \<Rightarrow> string option" where
  "argumentText callExp i =
     (if i < length (getArguments callExp) then Some (getText (getArguments callExp ! i))
      else None)"

definition guidOf :: "node \<Rightarrow> string option" where
  "guidOf callExp =
     map_option (\<lambda>firstArgument. substring firstArgument 1 (int (length firstArgument) - 1))
       (argumentText callExp 0)"

definition dateStringOf :: "Host \<Rightarrow> FunDecl \<Rightarrow> node \<Rightarrow> string option" where
  "dateStringOf h funDecl callExp =
     (let secondArg = argumentText callExp 1
      in if truthy secondArg \<and> dateParse h (the secondArg) \<noteq> InvalidDate then secondArg
         else extractDateFromComments h funDecl)"

definition push :: "FunDecl \<Rightarrow> string \<Rightarrow> IFindKSResult \<Rightarrow> IFindKSResult" where
  "push funDecl guid result =
     result\<lparr>ksDecls := ksDecls result @ [funDecl], guids := guids result @ [guid]\<rparr>"

definition visitFunDecl ::
  "Host \<Rightarrow> string option \<Rightarrow> Date \<Rightarrow> FunDecl \<Rightarrow> IFindKSResult \<Rightarrow> IFindKSResult" where
  "visitFunDecl h tid threshold funDecl result =
     (case ksCall (declNode funDecl) of
        None \<Rightarrow> result
      | Some callExp \<Rightarrow>
          (let guid = guidOf callExp
           in if truthy tid then
                (if guid = tid then push funDecl (the guid) result else result)
              else if truthy guid \<and> uuidValidate h (the guid) then
                (let dateString = dateStringOf h funDecl callExp
                 in if truthy dateString then
                      (let parsedDate = dateParse h (the dateString)
                       in if dateLess parsedDate threshold then push funDecl (the guid) result
                          else result)
                    else result)
              else result))"

definition hasKsImported :: "SourceFile \<Rightarrow> bool" where
  "hasKsImported f =
     list_ex testKillswitch (map getImportName (getDescendantsOfKind ImportSpecifier (root f)))"

definition selectFiles :: "Project \<Rightarrow> string option \<Rightarrow> SourceFile list \<times> string list" where
  "selectFiles project path =
     (if truthy path then
        (case getSourceFileOrThrow project (the path) of
           Some f \<Rightarrow> ([f], [])
         | None \<Rightarrow> ([], [''Invalid KS file path: '' @ the path]))
      else
        (filter (\<lambda>f. hasKsImported f \<and> includesText (getText (root f)) (''.'' @ KS_ACTIVATED_METHOD))
           (getSourceFiles project), []))"

text \<open>
  \<^verbatim>\<open>findKSDeclaration\<close>: the result and the lines written to \<^verbatim>\<open>console.error\<close>.
\<close>

definition findKSDeclaration ::
  "Host \<Rightarrow> Project \<Rightarrow> ICoreOptions \<Rightarrow> IFindKSResult \<times> string list" where
  "findKSDeclaration h project options =
     (let result = \<lparr>ksDecls = [], guids = []\<rparr>;
          threshold = (case thresholdDate options of None \<Rightarrow> defaultDate h | Some d \<Rightarrow> d);
          (ksFiles, errs) = selectFiles project (ksFilePath options)
      in (foldl (\<lambda>res ksFile. foldl (\<lambda>res funDecl. visitFunDecl h (targetId options) threshold funDecl res)
                                 res (funDeclsOf ksFile))
            result ksFiles,
          errs))"

section \<open>The reference replacement engine\<close>

text \<open>
  A node of the project is addressed by the index of its file and the path from the root
  of the file: the positions, among the children, of the nodes on the way down. Replacing
  a subtree by one new node moves no other node, so an address keeps naming the same
  node for as long as that node is in the tree.
\<close>

type_synonym NodeRef = "nat \<times> nat list"

text \<open>
  ts-morph forgets a node that a replacement removed, and every later use of a forgotten
  node throws; the same error stands for an address that names no node.
\<close>

datatype error = NodeRemovedOrForgotten

fun nodeAt :: "node \<Rightarrow> nat list \<Rightarrow> node option" where
  "nodeAt n [] = Some n"
| "nodeAt n (i # is) =
     (if i < length (getChildren n) then nodeAt (getChildren n ! i) is else None)"

fun updChild :: "piece list \<Rightarrow> nat \<Rightarrow> (node \<Rightarrow> node) \<Rightarrow> piece list" where
  "updChild [] i f = []"
| "updChild (Tok s # ps) i f = Tok s # updChild ps i f"
| "updChild (Child c # ps) 0 f = Child (f c) # ps"
| "updChild (Child c # ps) (Suc i) f = Child c # updChild ps i f"

fun replaceAt :: "node \<Rightarrow> nat list \<Rightarrow> node \<Rightarrow> node" where
  "replaceAt n [] new = new"
| "replaceAt (Node k ps) (i # is) new = Node k (updChild ps i (\<lambda>c. replaceAt c is new))"

text \<open>The node that the parser makes of the replacement text.\<close>

definition parseText :: "string \<Rightarrow> node" where
  "parseText s =
     (if s = ''true'' then Node TrueKeyword [Tok s]
      else if s = ''false'' then Node FalseKeyword [Tok s]
      else Node (OtherKind ''Expression'') [Tok s])"

text \<open>
  \<^verbatim>\<open>getOperatorToken\<close> of a prefix unary expression: the kind of its operator, the
  first piece of the node.
\<close>

fun getOperatorToken :: "node \<Rightarrow> SyntaxKind" where
  "getOperatorToken (Node k (Tok s # ps)) = (if s = ''!'' then ExclamationToken else OtherKind s)"
| "getOperatorToken (Node k ps) = OtherKind []"

text \<open>
  The state of one run: the files, the addresses where a subtree was replaced, and the
  two sets the run collects, in insertion order.
\<close>

record Replacement =
  files :: "SourceFile list"
  removed :: "NodeRef list"
  workList :: "NodeRef list"
  refFiles :: "nat list"

definition isForgotten :: "Replacement \<Rightarrow> NodeRef \<Rightarrow> bool" where
  "isForgotten st r =
     list_ex (\<lambda>q. fst q = fst r \<and> take (length (snd q)) (snd r) = snd q) (removed st)"

definition lookupNode :: "Replacement \<Rightarrow> NodeRef \<Rightarrow> node option" where
  "lookupNode st r =
     (if isForgotten st r \<or> length (files st) \<le> fst r then None
      else nodeAt (root (files st ! fst r)) (snd r))"

definition getParent :: "NodeRef \<Rightarrow> NodeRef option" where
  "getParent r = (if snd r = [] then None else Some (fst r, butlast (snd r)))"

definition getParentIfKind :: "SyntaxKind \<Rightarrow> Replacement \<Rightarrow> NodeRef \<Rightarrow> NodeRef option" where
  "getParentIfKind k st r =
     (case getParent r of
        None \<Rightarrow> None
      | Some p \<Rightarrow> if map_option getKind (lookupNode st p) = Some k then Some p else None)"

definition setAdd :: "'a \<Rightarrow> 'a list \<Rightarrow> 'a list" where
  "setAdd x xs = (if x \<in> set xs then xs else xs @ [x])"

text \<open>\<^verbatim>\<open>target.replaceWithText(text)\<close>: the new tree, with the old subtree forgotten.\<close>

definition replaceWithText :: "Replacement \<Rightarrow> NodeRef \<Rightarrow> string \<Rightarrow> Replacement" where
  "replaceWithText st target text =
     st\<lparr>files := (files st)[fst target :=
            (files st ! fst target)\<lparr>root := replaceAt (root (files st ! fst target)) (snd target)
                                               (parseText text)\<rparr>],
        removed := removed st @ [target]\<rparr>"

text \<open>The body of the inner loop, for one reference.\<close>

definition replaceRef :: "NodeRef \<Rightarrow> Replacement \<Rightarrow> error + Replacement" where
  "replaceRef refNode st =
     (case lookupNode st refNode of
        None \<Rightarrow> Inl NodeRemovedOrForgotten
      | Some _ \<Rightarrow>
          (case getParent refNode of
             None \<Rightarrow> Inr st
           | Some parent \<Rightarrow>
               if map_option getKind (lookupNode st parent) \<noteq> Some CallExpression then Inr st
               else
                 (let refFile = fst refNode;
                      negation = getParentIfKind PrefixUnaryExpression st parent;
                      negated = (map_option getOperatorToken (Option.bind negation (lookupNode st))
                                   = Some ExclamationToken);
                      target = (if negated then the negation else parent);
                      st' = replaceWithText st target (if negated then ''true'' else ''false'')
                  in case getParent target of
                       None \<Rightarrow> Inr st'
                     | Some newParent \<Rightarrow>
                         Inr (st'\<lparr>workList := setAdd newParent (workList st'),
                                  refFiles := setAdd refFile (refFiles st')\<rparr>))))"

fun forEachRef :: "NodeRef list \<Rightarrow> Replacement \<Rightarrow> error + Replacement" where
  "forEachRef [] st = Inr st"
| "forEachRef (r # rs) st =
     (case replaceRef r st of Inl e \<Rightarrow> Inl e | Inr st' \<Rightarrow> forEachRef rs st')"

text \<open>
  \<^verbatim>\<open>replaceFunCallWithFalse\<close>. Finding the references of the declaration is the language
  service's work: its answer, the references of each referenced symbol, is the argument
  \<open>refSymbols\<close>, each reference given by the address of the node that
  \<^verbatim>\<open>ref.getNode()\<close> yields for it. The result is the project after the run, the set
  of modified nodes and the list of files.
\<close>

definition initial :: "SourceFile list \<Rightarrow> Replacement" where
  "initial project = \<lparr>files = project, removed = [], workList = [], refFiles = []\<rparr>"

definition replaceFunCallWithFalse ::
  "SourceFile list \<Rightarrow> NodeRef list list \<Rightarrow> error + SourceFile list \<times> NodeRef list \<times> nat list" where
  "replaceFunCallWithFalse project refSymbols =
     (case forEachRef (concat refSymbols) (initial project) of
        Inl e \<Rightarrow> Inl e
      | Inr st \<Rightarrow> Inr (files st, workList st, refFiles st))"

section \<open>An example project\<close>

text \<open>
  One file, \<^verbatim>\<open>/src/flags.ts\<close>, with three statements:
  \<^verbatim>\<open>import { FLAG, KillSwitch } from "./ks";\<close>, the wrapper
  \<^verbatim>\<open>function checkX(){ return FLAG.isActivated("3fa85f64-5717-4562-b3fc-2c963f66afa6", "2023-01-01"); }\<close>
  and a use of it, \<^verbatim>\<open>if (!checkX()) { doWork(); }\<close>.
\<close>

definition ident :: "string \<Rightarrow> node" where
  "ident s = Node Identifier [Tok s]"

definition quoted :: "string \<Rightarrow> node" where
  "quoted s = Node StringLiteral [Tok ([CHR 0x22] @ s @ [CHR 0x22])]"

fun specifiers :: "string list \<Rightarrow> piece list" where
  "specifiers [] = []"
| "specifiers [n] = [Child (Node ImportSpecifier [Child (ident n)])]"
| "specifiers (n # ns) = Child (Node ImportSpecifier [Child (ident n)]) # Tok '', '' # specifiers ns"

definition importOf :: "string list \<Rightarrow> string \<Rightarrow> node" where
  "importOf names from =
     Node ImportDeclaration
       [Tok ''import '',
        Child (Node (OtherKind ''ImportClause'')
          [Child (Node (OtherKind ''NamedImports'') (Tok ''{ '' # specifiers names @ [Tok '' }'']))]),
        Tok '' from '', Child (quoted from), Tok '';'']"

definition checkXCall :: node where
  "checkXCall =
     Node CallExpression
       [Child (Node PropertyAccessExpression
                 [Child (ident ''FLAG''), Tok ''.'', Child (ident ''isActivated'')]),
        Tok ''('', Child (quoted ''3fa85f64-5717-4562-b3fc-2c963f66afa6''),
        Tok '', '', Child (quoted ''2023-01-01''), Tok '')'']"

definition checkXDecl :: node where
  "checkXDecl =
     Node FunctionDeclaration
       [Tok ''function '', Child (ident ''checkX''), Tok ''()'',
        Child (Node Block
          [Tok ''{ '', Child (Node ReturnStatement [Tok ''return '', Child checkXCall, Tok '';'']),
           Tok '' }''])]"

definition doWorkBlock :: node where
  "doWorkBlock =
     Node Block
       [Tok ''{ '',
        Child (Node ExpressionStatement
                 [Child (Node CallExpression [Child (ident ''doWork''), Tok ''()'']), Tok '';'']),
        Tok '' }'']"

definition ifNotCheckX :: node where
  "ifNotCheckX =
     Node IfStatement
       [Tok ''if ('',
        Child (Node PrefixUnaryExpression
                 [Tok ''!'', Child (Node CallExpression [Child (ident ''checkX''), Tok ''()''])]),
        Tok '') '', Child doWorkBlock]"

definition flagsFile :: SourceFile where
  "flagsFile =
     \<lparr>filePath = ''/src/flags.ts'',
      root = Node SourceFileKind
               [Child (importOf [''FLAG'', ''KillSwitch''] ''./ks''), Tok [CHR 0x0A],
                Child checkXDecl, Tok [CHR 0x0A],
                Child ifNotCheckX, Tok [CHR 0x0A]]\<rparr>"

definition exampleProject :: Project where
  "exampleProject =
     \<lparr>getSourceFiles = [flagsFile],
      getSourceFileOrThrow = (\<lambda>p. find (\<lambda>f. filePath f = p) [flagsFile])\<rparr>"

text \<open>
  The references of a declaration are the answer of the language service. In the example
  the name of the wrapper is bound once and never shadowed, so its references are the
  identifiers of the project that carry its name: the name of the declaration and the
  callee in the condition. \<open>addressesOf\<close> lists the addresses of all nodes of a tree in
  document order, \<open>functionName\<close> is \<^verbatim>\<open>getName()\<close> of a function declaration.
\<close>

fun addressesOf :: "node \<Rightarrow> nat list list"
  and addressesIn :: "piece list \<Rightarrow> nat \<Rightarrow> nat list list" where
  "addressesOf (Node k ps) = [] # addressesIn ps 0"
| "addressesIn [] i = []"
| "addressesIn (Tok s # ps) i = addressesIn ps i"
| "addressesIn (Child c # ps) i = map ((#) i) (addressesOf c) @ addressesIn ps (Suc i)"

definition isIdentifierNamed :: "string \<Rightarrow> node \<Rightarrow> nat list \<Rightarrow> bool" where
  "isIdentifierNamed name tree p =
     (case nodeAt tree p of
        None \<Rightarrow> False
      | Some n \<Rightarrow> getKind n = Identifier \<and> getText n = name)"

definition identifiersNamed :: "SourceFile list \<Rightarrow> string \<Rightarrow> NodeRef list" where
  "identifiersNamed project name =
     concat (map (\<lambda>i. map (Pair i)
                         (filter (isIdentifierNamed name (root (project ! i)))
                            (addressesOf (root (project ! i)))))
               [0 ..< length project])"

definition functionName :: "FunDecl \<Rightarrow> string" where
  "functionName d =
     (case find (\<lambda>c. getKind c = Identifier) (getChildren (declNode d)) of
        None \<Rightarrow> []
      | Some nm \<Rightarrow> getText nm)"

definition checkXReferences :: "NodeRef list list" where
  "checkXReferences =
     [identifiersNamed (getSourceFiles exampleProject) (functionName (flagsFile, 1))]"

text \<open>
  A host for the examples. Its \<^verbatim>\<open>validate\<close> is a format test in the manner of the
  package uuid (as of its version 8): 36 characters in groups of 8, 4, 4, 4 and 12
  hexadecimal digits, a version digit from 1 to 5 and a variant digit among 8, 9, a, b, or
  the nil identifier. Its date parser knows
  the one text of the example, quotes included, as midnight UTC of that day.
\<close>

definition isHex :: "char \<Rightarrow> bool" where
  "isHex c = (c \<in> set ''0123456789abcdefABCDEF'')"

definition uuidFormat :: "string \<Rightarrow> bool" where
  "uuidFormat s =
     (s = ''00000000-0000-0000-0000-000000000000'' \<or>
      (length s = 36 \<and>
       list_all (\<lambda>i. if i \<in> set [8, 13, 18, 23] then s ! i = CHR ''-'' else isHex (s ! i))
         [0 ..< 36] \<and>
       s ! 14 \<in> set ''12345'' \<and> s ! 19 \<in> set ''89abAB''))"

definition exampleHost :: Host where
  "exampleHost =
     \<lparr>dateParse = (\<lambda>s. if s = [CHR 0x22] @ ''2023-01-01'' @ [CHR 0x22]
                        then Time 1672531200000 else InvalidDate),
      uuidValidate = uuidFormat,
      extractDateFromComments = (\<lambda>d. None),
      loadTime = 1719792000000\<rparr>"

text \<open>
  A third file with three more declarations:
  \<^verbatim>\<open>function early(){ if (ready) { return FLAG.isActivated("a"); } return FLAG.isActivated("b"); }\<close>
  has two return statements, \<^verbatim>\<open>function plain(){ return 1; }\<close> returns no call, and
  \<^verbatim>\<open>function later(){ return FLAG.isActivated("11111111-1111-1111-1111-111111111111", "2099-01-01"); }\<close>
  carries a date far in the future.
\<close>

definition laterCall :: node where
  "laterCall =
     Node CallExpression
       [Child (Node PropertyAccessExpression
                 [Child (ident ''FLAG''), Tok ''.'', Child (ident ''isActivated'')]),
        Tok ''('', Child (quoted ''11111111-1111-1111-1111-111111111111''),
        Tok '', '', Child (quoted ''2099-01-01''), Tok '')'']"

definition laterDecl :: node where
  "laterDecl =
     Node FunctionDeclaration
       [Tok ''function '', Child (ident ''later''), Tok ''()'',
        Child (Node Block
          [Tok ''{ '', Child (Node ReturnStatement [Tok ''return '', Child laterCall, Tok '';'']),
           Tok '' }''])]"

definition activatedCall :: "string \<Rightarrow> node" where
  "activatedCall g =
     Node CallExpression
       [Child (Node PropertyAccessExpression
                 [Child (ident ''FLAG''), Tok ''.'', Child (ident ''isActivated'')]),
        Tok ''('', Child (quoted g), Tok '')'']"

definition earlyDecl :: node where
  "earlyDecl =
     Node FunctionDeclaration
       [Tok ''function '', Child (ident ''early''), Tok ''()'',
        Child (Node Block
          [Tok ''{ '',
           Child (Node IfStatement
             [Tok ''if ('', Child (ident ''ready''), Tok '') '',
              Child (Node Block
                [Tok ''{ '',
                 Child (Node ReturnStatement [Tok ''return '', Child (activatedCall ''a''), Tok '';'']),
                 Tok '' }''])]),
           Tok '' '',
           Child (Node ReturnStatement [Tok ''return '', Child (activatedCall ''b''), Tok '';'']),
           Tok '' }''])]"

definition plainDecl :: node where
  "plainDecl =
     Node FunctionDeclaration
       [Tok ''function '', Child (ident ''plain''), Tok ''()'',
        Child (Node Block
          [Tok ''{ '',
           Child (Node ReturnStatement
                    [Tok ''return '', Child (Node (OtherKind ''NumericLiteral'') [Tok ''1'']), Tok '';'']),
           Tok '' }''])]"

definition otherFile :: SourceFile where
  "otherFile =
     \<lparr>filePath = ''/src/other.ts'',
      root = Node SourceFileKind
               [Child (importOf [''FLAG'', ''KillSwitch''] ''./ks''), Tok [CHR 0x0A],
                Child earlyDecl, Tok [CHR 0x0A], Child plainDecl, Tok [CHR 0x0A],
                Child laterDecl, Tok [CHR 0x0A]]\<rparr>"

definition otherProject :: Project where
  "otherProject =
     \<lparr>getSourceFiles = [otherFile],
      getSourceFileOrThrow = (\<lambda>p. find (\<lambda>f. filePath f = p) [otherFile])\<rparr>"

definition targetedOptions :: ICoreOptions where
  "targetedOptions =
     \<lparr>targetId = Some ''11111111-1111-1111-1111-111111111111'',
      ksFilePath = Some ''/src/other.ts'', thresholdDate = None\<rparr>"

definition missingOptions :: ICoreOptions where
  "missingOptions =
     \<lparr>targetId = None, ksFilePath = Some ''/src/missing.ts'', thresholdDate = None\<rparr>"

text \<open>
  The file of the example project after the replacement, with the use
  \<^verbatim>\<open>if (true) { doWork(); }\<close>.
\<close>

definition flagsFileAfter :: SourceFile where
  "flagsFileAfter =
     \<lparr>filePath = ''/src/flags.ts'',
      root = Node SourceFileKind
               [Child (importOf [''FLAG'', ''KillSwitch''] ''./ks''), Tok [CHR 0x0A],
                Child checkXDecl, Tok [CHR 0x0A],
                Child (Node IfStatement
                         [Tok ''if ('', Child (Node TrueKeyword [Tok ''true'']), Tok '') '',
                          Child doWorkBlock]),
                Tok [CHR 0x0A]]\<rparr>"

text \<open>
  A file with one statement for each way of using a wrapper:
  \<^verbatim>\<open>!wrapper();\<close>, \<^verbatim>\<open>wrapper();\<close>, \<^verbatim>\<open>const x = wrapper();\<close>,
  \<^verbatim>\<open>const f = wrapper;\<close>, \<^verbatim>\<open>run(wrapper);\<close> and \<^verbatim>\<open>!run(wrapper);\<close>.
\<close>

definition wrapperCall :: node where
  "wrapperCall = Node CallExpression [Child (ident ''wrapper''), Tok ''()'']"

definition runCall :: node where
  "runCall = Node CallExpression [Child (ident ''run''), Tok ''('', Child (ident ''wrapper''), Tok '')'']"

definition notOf :: "node \<Rightarrow> node" where
  "notOf e = Node PrefixUnaryExpression [Tok ''!'', Child e]"

definition exprStatement :: "node \<Rightarrow> node" where
  "exprStatement e = Node ExpressionStatement [Child e, Tok '';'']"

definition constStatement :: "string \<Rightarrow> node \<Rightarrow> node" where
  "constStatement x e =
     Node VariableStatement
       [Child (Node (OtherKind ''VariableDeclarationList'')
                 [Tok ''const '', Child (Node VariableDeclaration [Child (ident x), Tok '' = '', Child e])]),
        Tok '';'']"

definition usesOf :: "node list \<Rightarrow> SourceFile" where
  "usesOf statements =
     \<lparr>filePath = ''/src/uses.ts'',
      root = Node SourceFileKind (concat (map (\<lambda>s. [Child s, Tok [CHR 0x0A]]) statements))\<rparr>"

definition usesFile :: SourceFile where
  "usesFile =
     usesOf [exprStatement (notOf wrapperCall), exprStatement wrapperCall,
             constStatement ''x'' wrapperCall, constStatement ''f'' (ident ''wrapper''),
             exprStatement runCall, exprStatement (notOf runCall)]"





definition scanOptions :: ICoreOptions where
  "scanOptions = \<lparr>targetId = None, ksFilePath = None, thresholdDate = Some (Time 1704067200000)\<rparr>"

section \<open>Auxiliary notions for the proofs\<close>

definition emptyResult :: IFindKSResult where
  "emptyResult = \<lparr>ksDecls = [], guids = []\<rparr>"

text \<open>A declaration is selected when visiting it adds it to the empty result.\<close>

definition selected :: "Host \<Rightarrow> string option \<Rightarrow> Date \<Rightarrow> FunDecl \<Rightarrow> bool" where
  "selected h tid threshold d = (ksDecls (visitFunDecl h tid threshold d emptyResult) \<noteq> [])"

definition declGuid :: "FunDecl \<Rightarrow> string" where
  "declGuid d = the (guidOf (the (ksCall (declNode d))))"

text \<open>
  The negation of a call, in the words of the specification: the parent of the call when
  it is a prefix unary expression with the operator \<^verbatim>\<open>!\<close>.
\<close>

definition negationOf :: "Replacement \<Rightarrow> NodeRef \<Rightarrow> NodeRef option" where
  "negationOf st call =
     (case getParent call of
        None \<Rightarrow> None
      | Some g \<Rightarrow>
          (case lookupNode st g of
             None \<Rightarrow> None
           | Some neg \<Rightarrow>
               if getKind neg = PrefixUnaryExpression \<and> getOperatorToken neg = ExclamationToken
               then Some g else None))"

text \<open>
  The graduation date in the words of the specification: the second argument of the call
  when its text parses as a date, else the date found in the comments; absent when neither
  gives a valid date.
\<close>

definition graduationDate :: "Host \<Rightarrow> FunDecl \<Rightarrow> node \<Rightarrow> Date option" where
  "graduationDate h funDecl callExp =
     (let validDate = (\<lambda>s. if dateParse h s = InvalidDate then None else Some (dateParse h s));
          fromComments = Option.bind (extractDateFromComments h funDecl) validDate
      in case Option.bind (argumentText callExp 1) validDate of
           Some t \<Rightarrow> Some t
         | None \<Rightarrow> fromComments)"

text \<open>The node that the loop body replaces for a call, and the literal it puts there.\<close>

definition targetOf :: "Replacement \<Rightarrow> NodeRef \<Rightarrow> NodeRef" where
  "targetOf st call = (case negationOf st call of Some g \<Rightarrow> g | None \<Rightarrow> call)"

definition literalOf :: "Replacement \<Rightarrow> NodeRef \<Rightarrow> string" where
  "literalOf st call = (case negationOf st call of Some g \<Rightarrow> ''true'' | None \<Rightarrow> ''false'')"

text \<open>Addresses: \<open>q\<close> is a prefix of \<open>p\<close> when the node at \<open>p\<close> lies in the subtree at \<open>q\<close>.\<close>

definition isPrefix :: "nat list \<Rightarrow> nat list \<Rightarrow> bool" where
  "isPrefix q p = (take (length q) p = q)"

text \<open>
  A reference is settled when it has been removed from the tree or is in the tree under a
  parent that is not a call expression; the survivors of a run are the references that it
  did not remove.
\<close>

definition hasCallParent :: "Replacement \<Rightarrow> NodeRef \<Rightarrow> bool" where
  "hasCallParent st r =
     (case getParent r of
        None \<Rightarrow> False
      | Some p \<Rightarrow> map_option getKind (lookupNode st p) = Some CallExpression)"

definition settled :: "Replacement \<Rightarrow> NodeRef \<Rightarrow> bool" where
  "settled st r = (isForgotten st r \<or> (lookupNode st r \<noteq> None \<and> \<not> hasCallParent st r))"

definition survivors :: "SourceFile list \<Rightarrow> NodeRef list list \<Rightarrow> NodeRef list" where
  "survivors project refSymbols =
     (case forEachRef (concat refSymbols) (initial project) of
        Inl e \<Rightarrow> []
      | Inr st \<Rightarrow> filter (\<lambda>r. \<not> isForgotten st r) (concat refSymbols))"

section \<open>Facts about the locator\<close>

lemma visitFunDecl_cases:
  "visitFunDecl h tid th d res = (if selected h tid th d then push d (declGuid d) res else res)"
  by (simp add: visitFunDecl_def selected_def declGuid_def push_def emptyResult_def Let_def
      split: option.splits)

lemma foldl_visit:
  "foldl (\<lambda>res funDecl. visitFunDecl h tid th funDecl res) res ds =
     res\<lparr>ksDecls := ksDecls res @ filter (selected h tid th) ds,
         guids := guids res @ map declGuid (filter (selected h tid th) ds)\<rparr>"
  by (induction ds arbitrary: res) (simp_all add: visitFunDecl_cases push_def)

lemma foldl_files:
  "foldl (\<lambda>res ksFile. foldl (\<lambda>res funDecl. visitFunDecl h tid th funDecl res) res (funDeclsOf ksFile))
     res fs =
   res\<lparr>ksDecls := ksDecls res @ filter (selected h tid th) (concat (map funDeclsOf fs)),
       guids := guids res @ map declGuid (filter (selected h tid th) (concat (map funDeclsOf fs)))\<rparr>"
  by (induction fs arbitrary: res) (simp_all add: foldl_visit)

lemma findKSDeclaration_eq:
  "fst (findKSDeclaration h project options) =
     (let th = (case thresholdDate options of None \<Rightarrow> defaultDate h | Some d \<Rightarrow> d);
          ds = filter (selected h (targetId options) th)
                 (concat (map funDeclsOf (fst (selectFiles project (ksFilePath options)))))
      in \<lparr>ksDecls = ds, guids = map declGuid ds\<rparr>)"
proof -
  obtain ksFiles errs where sf: "selectFiles project (ksFilePath options) = (ksFiles, errs)"
    by (cases "selectFiles project (ksFilePath options)")
  show ?thesis
    using foldl_files[where fs = ksFiles and res = "\<lparr>ksDecls = [], guids = []\<rparr>"]
    by (simp add: findKSDeclaration_def sf Let_def)
qed

lemma mem_result:
  assumes "f \<in> set (fst (selectFiles project (ksFilePath options)))" "d \<in> set (funDeclsOf f)"
  shows "d \<in> set (ksDecls (fst (findKSDeclaration h project options))) \<longleftrightarrow>
         selected h (targetId options)
           (case thresholdDate options of None \<Rightarrow> defaultDate h | Some t \<Rightarrow> t) d"
  using assms by (auto simp add: findKSDeclaration_eq Let_def)

lemma selected_scan:
  assumes "\<not> truthy tid" "ksCall (declNode d) = Some callExp"
  shows "selected h tid th d \<longleftrightarrow>
     truthy (guidOf callExp) \<and> uuidValidate h (the (guidOf callExp)) \<and>
     truthy (dateStringOf h d callExp) \<and> dateLess (dateParse h (the (dateStringOf h d callExp))) th"
  using assms
  by (auto simp add: selected_def visitFunDecl_def emptyResult_def push_def Let_def)

lemma dateString_graduation:
  assumes "dateParse h [] = InvalidDate"
  shows "(truthy (dateStringOf h d callExp) \<and>
          dateLess (dateParse h (the (dateStringOf h d callExp))) th)
     \<longleftrightarrow> (\<exists>t. graduationDate h d callExp = Some t \<and> dateLess t th)"
proof -
  have inv: "\<And>x. \<not> dateLess InvalidDate x" by simp
  show ?thesis
    using assms inv
    by (cases "argumentText callExp 1"; cases "extractDateFromComments h d")
       (auto simp add: dateStringOf_def graduationDate_def Let_def)
qed

lemma selected_targeted:
  assumes "t \<noteq> []" "ksCall (declNode d) = Some callExp"
  shows "selected h (Some t) th d \<longleftrightarrow> guidOf callExp = Some t"
  using assms
  by (simp add: selected_def visitFunDecl_def emptyResult_def push_def Let_def)

lemma truthy_the: "truthy x \<Longrightarrow> x = Some (the x)"
  by (cases x) simp_all

lemma selected_guid:
  assumes "selected h tid th d"
  shows "Option.bind (ksCall (declNode d)) guidOf = Some (declGuid d)"
  using assms
  by (cases "ksCall (declNode d)"; cases tid)
     (auto simp add: truthy_the selected_def visitFunDecl_def emptyResult_def push_def Let_def
           declGuid_def split: if_splits)

text \<open>
  C1. Scan mode, that is, no target identifier (or an empty one): a declaration \<open>d\<close> of a
  kept file whose body has the shape of a kill switch wrapper, with call \<open>callExp\<close>, is in
  the result if and only if its identifier is a valid UUID and its graduation date exists
  and is strictly earlier than the threshold, which is the date of the options or, by
  default, the load time minus 180 days. The host's validator and parser reject the empty
  string.
\<close>

theorem scan_mode_selection:
  assumes "\<not> truthy (targetId options)"
    and "f \<in> set (fst (selectFiles project (ksFilePath options)))"
    and "d \<in> set (funDeclsOf f)"
    and "ksCall (declNode d) = Some callExp"
    and "\<not> uuidValidate h []"
    and "dateParse h [] = InvalidDate"
  shows "d \<in> set (ksDecls (fst (findKSDeclaration h project options))) \<longleftrightarrow>
     (\<exists>g. guidOf callExp = Some g \<and> uuidValidate h g) \<and>
     (\<exists>t. graduationDate h d callExp = Some t \<and>
          dateLess t (case thresholdDate options of
                        None \<Rightarrow> Time (loadTime h - 180 * (24 * 60 * 60 * 1000))
                      | Some c \<Rightarrow> c))"
proof -
  have th: "(case thresholdDate options of
               None \<Rightarrow> Time (loadTime h - 180 * (24 * 60 * 60 * 1000)) | Some c \<Rightarrow> c)
      = (case thresholdDate options of None \<Rightarrow> defaultDate h | Some c \<Rightarrow> c)"
    by (simp add: defaultDate_def split: option.splits)
  have g: "(truthy (guidOf callExp) \<and> uuidValidate h (the (guidOf callExp))) \<longleftrightarrow>
        (\<exists>g. guidOf callExp = Some g \<and> uuidValidate h g)"
    using assms(5) by (cases "guidOf callExp") auto
  show ?thesis
    unfolding th mem_result[OF assms(2,3)] selected_scan[OF assms(1,4)]
    using g dateString_graduation[OF assms(6)] by blast
qed

theorem scan_mode_selection_witness:
  "\<not> truthy (targetId scanOptions) \<and>
   flagsFile \<in> set (fst (selectFiles exampleProject (ksFilePath scanOptions))) \<and>
   (flagsFile, 1) \<in> set (funDeclsOf flagsFile) \<and>
   ksCall (declNode (flagsFile, 1)) = Some checkXCall \<and>
   \<not> uuidValidate exampleHost [] \<and>
   dateParse exampleHost [] = InvalidDate \<and>
   (flagsFile, 1) \<in> set (ksDecls (fst (findKSDeclaration exampleHost exampleProject scanOptions)))"
proof -
  have h1: "\<not> truthy (targetId scanOptions)" by code_simp
  have h2: "flagsFile \<in> set (fst (selectFiles exampleProject (ksFilePath scanOptions)))"
    by code_simp
  have h3: "(flagsFile, 1) \<in> set (funDeclsOf flagsFile)" by code_simp
  have h4: "ksCall (declNode (flagsFile, 1)) = Some checkXCall" by code_simp
  have h5: "\<not> uuidValidate exampleHost []" by code_simp
  have h6: "dateParse exampleHost [] = InvalidDate" by code_simp
  have g: "guidOf checkXCall = Some ''3fa85f64-5717-4562-b3fc-2c963f66afa6''" by code_simp
  have v: "uuidValidate exampleHost ''3fa85f64-5717-4562-b3fc-2c963f66afa6''" by code_simp
  have t: "graduationDate exampleHost (flagsFile, 1) checkXCall = Some (Time 1672531200000)"
    by code_simp
  have l: "dateLess (Time 1672531200000)
             (case thresholdDate scanOptions of
                None \<Rightarrow> Time (loadTime exampleHost - 180 * (24 * 60 * 60 * 1000))
              | Some c \<Rightarrow> c)"
    by code_simp
  have "(flagsFile, 1) \<in> set (ksDecls (fst (findKSDeclaration exampleHost exampleProject scanOptions)))"
    using scan_mode_selection[OF h1 h2 h3 h4 h5 h6] g v t l by blast
  with h1 h2 h3 h4 h5 h6 show ?thesis by blast
qed

text \<open>
  C2. Targeted mode, that is, a target identifier that is not empty: a declaration \<open>d\<close> of
  a kept file with the shape of a kill switch wrapper is in the result if and only if its
  extracted identifier is the target identifier. The host, and with it the UUID validator
  and every date, has no part in the condition.
\<close>

theorem targeted_mode_selection:
  assumes "targetId options = Some t" and "t \<noteq> []"
    and "f \<in> set (fst (selectFiles project (ksFilePath options)))"
    and "d \<in> set (funDeclsOf f)"
    and "ksCall (declNode d) = Some callExp"
  shows "d \<in> set (ksDecls (fst (findKSDeclaration h project options))) \<longleftrightarrow>
         guidOf callExp = Some t"
  unfolding mem_result[OF assms(3,4)] assms(1) selected_targeted[OF assms(2,5)] ..

theorem targeted_mode_selection_witness:
  "targetId targetedOptions = Some ''11111111-1111-1111-1111-111111111111'' \<and>
   ''11111111-1111-1111-1111-111111111111'' \<noteq> [] \<and>
   otherFile \<in> set (fst (selectFiles otherProject (ksFilePath targetedOptions))) \<and>
   (otherFile, 3) \<in> set (funDeclsOf otherFile) \<and>
   ksCall (declNode (otherFile, 3)) = Some laterCall \<and>
   dateParse exampleHost (getText (getArguments laterCall ! 1)) = InvalidDate \<and>
   (otherFile, 3) \<in> set (ksDecls (fst (findKSDeclaration exampleHost otherProject targetedOptions)))"
proof -
  have h1: "targetId targetedOptions = Some ''11111111-1111-1111-1111-111111111111''"
    by code_simp
  have h2: "''11111111-1111-1111-1111-111111111111'' \<noteq> []" by simp
  have h3: "otherFile \<in> set (fst (selectFiles otherProject (ksFilePath targetedOptions)))"
    by code_simp
  have h4: "(otherFile, 3) \<in> set (funDeclsOf otherFile)" by code_simp
  have h5: "ksCall (declNode (otherFile, 3)) = Some laterCall" by code_simp
  have g: "guidOf laterCall = Some ''11111111-1111-1111-1111-111111111111''" by code_simp
  have p: "dateParse exampleHost (getText (getArguments laterCall ! 1)) = InvalidDate"
    by code_simp
  have "(otherFile, 3) \<in> set (ksDecls (fst (findKSDeclaration exampleHost otherProject targetedOptions)))"
    using targeted_mode_selection[OF h1 h2 h3 h4 h5] g by blast
  with h1 h2 h3 h4 h5 p show ?thesis by blast
qed

text \<open>
  C6. A file hint that is given (not empty) and does not resolve: the exception of the
  lookup is caught, one line goes to the error console, no file is visited, and the
  function returns the result with no declaration and no identifier.
\<close>

theorem missing_file_hint:
  assumes "ksFilePath options = Some p" and "p \<noteq> []"
    and "getSourceFileOrThrow project p = None"
  shows "findKSDeclaration h project options =
         (\<lparr>ksDecls = [], guids = []\<rparr>, [''Invalid KS file path: '' @ p])"
  using assms by (simp add: findKSDeclaration_def selectFiles_def)

theorem missing_file_hint_witness:
  "ksFilePath missingOptions = Some ''/src/missing.ts'' \<and>
   ''/src/missing.ts'' \<noteq> [] \<and>
   getSourceFileOrThrow exampleProject ''/src/missing.ts'' = None \<and>
   findKSDeclaration exampleHost exampleProject missingOptions =
     (\<lparr>ksDecls = [], guids = []\<rparr>, [''Invalid KS file path: /src/missing.ts''])"
proof -
  have h1: "ksFilePath missingOptions = Some ''/src/missing.ts''" by code_simp
  have h2: "''/src/missing.ts'' \<noteq> []" by simp
  have h3: "getSourceFileOrThrow exampleProject ''/src/missing.ts'' = None" by code_simp
  show ?thesis
    using missing_file_hint[OF h1 h2 h3, of exampleHost] h1 h3 by simp
qed

text \<open>
  C9. The two lists of the result have the same length, and the identifier at each
  position is the identifier extracted from the call of the declaration at that position;
  in every mode, for every project, host and options.
\<close>

theorem result_index_aligned:
  "length (ksDecls (fst (findKSDeclaration h project options))) =
     length (guids (fst (findKSDeclaration h project options))) \<and>
   map (\<lambda>d. Option.bind (ksCall (declNode d)) guidOf)
       (ksDecls (fst (findKSDeclaration h project options))) =
     map Some (guids (fst (findKSDeclaration h project options)))"
proof -
  let ?th = "case thresholdDate options of None \<Rightarrow> defaultDate h | Some d \<Rightarrow> d"
  let ?ds = "filter (selected h (targetId options) ?th)
               (concat (map funDeclsOf (fst (selectFiles project (ksFilePath options)))))"
  have r: "fst (findKSDeclaration h project options) = \<lparr>ksDecls = ?ds, guids = map declGuid ?ds\<rparr>"
    by (simp add: findKSDeclaration_eq Let_def)
  have "map (\<lambda>d. Option.bind (ksCall (declNode d)) guidOf) ?ds = map Some (map declGuid ?ds)"
    by (auto simp add: selected_guid)
  then show ?thesis unfolding r by simp
qed

text \<open>
  C5 as the code has it. A declaration passes the structural test exactly when the first
  return statement among its descendants, in document order, returns a call whose callee
  is a property access named \<^verbatim>\<open>isActivated\<close>; the number of return statements is not
  looked at. A declaration that does not pass leaves the result as it was.
\<close>

theorem first_return_decides:
  "(ksCall funDecl = Some callExp \<longleftrightarrow>
      (\<exists>ret acc. find (\<lambda>n. getKind n = ReturnStatement) (getDescendants funDecl) = Some ret \<and>
         getExpression ret = Some callExp \<and> getKind callExp = CallExpression \<and>
         getExpression callExp = Some acc \<and> getKind acc = PropertyAccessExpression \<and>
         getName acc = ''isActivated'')) \<and>
   (ksCall (declNode d) = None \<longrightarrow> visitFunDecl h tid th d res = res)"
proof
  show "ksCall funDecl = Some callExp \<longleftrightarrow>
      (\<exists>ret acc. find (\<lambda>n. getKind n = ReturnStatement) (getDescendants funDecl) = Some ret \<and>
         getExpression ret = Some callExp \<and> getKind callExp = CallExpression \<and>
         getExpression callExp = Some acc \<and> getKind acc = PropertyAccessExpression \<and>
         getName acc = ''isActivated'')"
    by (cases "find (\<lambda>n. getKind n = ReturnStatement) (getDescendants funDecl)")
       (auto simp add: ksCall_def getFirstDescendantByKind_def getExpressionIfKind_def
          KS_ACTIVATED_METHOD_def Let_def split: option.splits if_splits)
  show "ksCall (declNode d) = None \<longrightarrow> visitFunDecl h tid th d res = res"
    by (simp add: visitFunDecl_def)
qed

theorem first_return_decides_witness:
  "ksCall (declNode (otherFile, 2)) = None \<and>
   visitFunDecl exampleHost None (Time 0) (otherFile, 2) emptyResult = emptyResult"
proof -
  have h: "ksCall (declNode (otherFile, 2)) = None" by code_simp
  show ?thesis
    using first_return_decides[of laterDecl laterCall "(otherFile, 2)" exampleHost None "Time 0"
        emptyResult] h
    by blast
qed

text \<open>
  C5 as stated fails: the declaration \<^verbatim>\<open>early\<close> passes the structural test with the
  call of its first return statement, and it has two return statements.
\<close>

theorem single_return_counterexample:
  "ksCall earlyDecl = Some (activatedCall ''a'') \<and>
   getDescendantsOfKind ReturnStatement earlyDecl =
     [Node ReturnStatement [Tok ''return '', Child (activatedCall ''a''), Tok '';''],
      Node ReturnStatement [Tok ''return '', Child (activatedCall ''b''), Tok '';'']]"
  by code_simp

section \<open>Facts about the replacement engine\<close>

lemma updChild_children:
  "i < length (childrenOfPieces ps) \<Longrightarrow>
   childrenOfPieces (updChild ps i f) = (childrenOfPieces ps)[i := f (childrenOfPieces ps ! i)]"
  by (induction ps i f rule: updChild.induct) simp_all

lemma updChild_text:
  "i < length (childrenOfPieces ps) \<Longrightarrow>
   \<exists>pre post. piecesText ps = pre @ getText (childrenOfPieces ps ! i) @ post \<and>
      (\<forall>f. piecesText (updChild ps i f) = pre @ getText (f (childrenOfPieces ps ! i)) @ post)"
proof (induction ps arbitrary: i)
  case Nil
  then show ?case by simp
next
  case (Cons p ps)
  show ?case
  proof (cases p)
    case (Tok s)
    with Cons.prems have "i < length (childrenOfPieces ps)" by simp
    from Cons.IH[OF this] obtain pre post where
      "piecesText ps = pre @ getText (childrenOfPieces ps ! i) @ post"
      "\<forall>f. piecesText (updChild ps i f) = pre @ getText (f (childrenOfPieces ps ! i)) @ post"
      by blast
    then have "piecesText (p # ps) = (s @ pre) @ getText (childrenOfPieces (p # ps) ! i) @ post \<and>
      (\<forall>f. piecesText (updChild (p # ps) i f) = (s @ pre) @ getText (f (childrenOfPieces (p # ps) ! i)) @ post)"
      using Tok by simp
    then show ?thesis by blast
  next
    case (Child c)
    show ?thesis
    proof (cases i)
      case 0
      have "piecesText (p # ps) = [] @ getText (childrenOfPieces (p # ps) ! i) @ piecesText ps \<and>
      (\<forall>f. piecesText (updChild (p # ps) i f) = [] @ getText (f (childrenOfPieces (p # ps) ! i)) @ piecesText ps)"
        using Child 0 by simp
      then show ?thesis by blast
    next
      case (Suc j)
      with Cons.prems Child have "j < length (childrenOfPieces ps)" by simp
      from Cons.IH[OF this] obtain pre post where
        "piecesText ps = pre @ getText (childrenOfPieces ps ! j) @ post"
        "\<forall>f. piecesText (updChild ps j f) = pre @ getText (f (childrenOfPieces ps ! j)) @ post"
        by blast
      then have "piecesText (p # ps) = (getText c @ pre) @ getText (childrenOfPieces (p # ps) ! i) @ post \<and>
      (\<forall>f. piecesText (updChild (p # ps) i f) = (getText c @ pre) @ getText (f (childrenOfPieces (p # ps) ! i)) @ post)"
        using Child Suc by simp
      then show ?thesis by blast
    qed
  qed
qed

lemma nodeAt_replaceAt:
  "nodeAt n path = Some old \<Longrightarrow> nodeAt (replaceAt n path new) path = Some new"
proof (induction path arbitrary: n)
  case Nil
  then show ?case by simp
next
  case (Cons i path)
  obtain k ps where n: "n = Node k ps" by (cases n)
  from Cons.prems n have i: "i < length (childrenOfPieces ps)"
    and sub: "nodeAt (childrenOfPieces ps ! i) path = Some old"
    by (simp_all split: if_splits)
  show ?case
    using Cons.IH[OF sub] i by (simp add: n updChild_children)
qed

lemma replaceAt_text:
  "nodeAt n path = Some old \<Longrightarrow>
   \<exists>pre post. getText n = pre @ getText old @ post \<and>
      (\<forall>new. getText (replaceAt n path new) = pre @ getText new @ post)"
proof (induction path arbitrary: n)
  case Nil
  then have "getText n = [] @ getText old @ [] \<and>
      (\<forall>new. getText (replaceAt n [] new) = [] @ getText new @ [])" by simp
  then show ?case by blast
next
  case (Cons i path)
  obtain k ps where n: "n = Node k ps" by (cases n)
  from Cons.prems n have i: "i < length (childrenOfPieces ps)"
    and sub: "nodeAt (childrenOfPieces ps ! i) path = Some old"
    by (simp_all split: if_splits)
  from Cons.IH[OF sub] obtain pre1 post1 where
    a: "getText (childrenOfPieces ps ! i) = pre1 @ getText old @ post1"
    and b: "\<forall>new. getText (replaceAt (childrenOfPieces ps ! i) path new) = pre1 @ getText new @ post1"
    by blast
  from updChild_text[OF i] obtain pre2 post2 where
    c: "piecesText ps = pre2 @ getText (childrenOfPieces ps ! i) @ post2"
    and d: "\<forall>f. piecesText (updChild ps i f) = pre2 @ getText (f (childrenOfPieces ps ! i)) @ post2"
    by blast
  have "getText n = (pre2 @ pre1) @ getText old @ (post1 @ post2) \<and>
      (\<forall>new. getText (replaceAt n (i # path) new) = (pre2 @ pre1) @ getText new @ (post1 @ post2))"
    using a b c d by (simp add: n)
  then show ?case by blast
qed


lemma getText_parseText: "getText (parseText s) = s"
  by (simp add: parseText_def)

lemma getParent_fst: "getParent r = Some p \<Longrightarrow> fst p = fst r"
  by (auto simp add: getParent_def split: if_splits)

lemma lookupNode_SomeD:
  "lookupNode st r = Some n \<Longrightarrow>
   fst r < length (files st) \<and> nodeAt (root (files st ! fst r)) (snd r) = Some n"
  by (auto simp add: lookupNode_def split: if_splits)

lemma replaceWithText_effect:
  assumes "lookupNode st target = Some old"
  shows "\<exists>pre post.
      getText (root (files st ! fst target)) = pre @ getText old @ post \<and>
      getText (root (files (replaceWithText st target lit) ! fst target)) = pre @ lit @ post"
    and "nodeAt (root (files (replaceWithText st target lit) ! fst target)) (snd target)
           = Some (parseText lit)"
    and "\<forall>j. j \<noteq> fst target \<longrightarrow> files (replaceWithText st target lit) ! j = files st ! j"
    and "workList (replaceWithText st target lit) = workList st"
    and "refFiles (replaceWithText st target lit) = refFiles st"
proof -
  from lookupNode_SomeD[OF assms] have i: "fst target < length (files st)"
    and n: "nodeAt (root (files st ! fst target)) (snd target) = Some old" by simp_all
  from replaceAt_text[OF n] obtain pre post where
    "getText (root (files st ! fst target)) = pre @ getText old @ post"
    "\<forall>new. getText (replaceAt (root (files st ! fst target)) (snd target) new) = pre @ getText new @ post"
    by blast
  then have "getText (root (files st ! fst target)) = pre @ getText old @ post \<and>
      getText (root (files (replaceWithText st target lit) ! fst target)) = pre @ lit @ post"
    using i by (simp add: replaceWithText_def getText_parseText)
  then show "\<exists>pre post.
      getText (root (files st ! fst target)) = pre @ getText old @ post \<and>
      getText (root (files (replaceWithText st target lit) ! fst target)) = pre @ lit @ post"
    by blast
  show "nodeAt (root (files (replaceWithText st target lit) ! fst target)) (snd target)
           = Some (parseText lit)"
    using i nodeAt_replaceAt[OF n] by (simp add: replaceWithText_def)
  show "\<forall>j. j \<noteq> fst target \<longrightarrow> files (replaceWithText st target lit) ! j = files st ! j"
    by (simp add: replaceWithText_def)
  show "workList (replaceWithText st target lit) = workList st"
    by (simp add: replaceWithText_def)
  show "refFiles (replaceWithText st target lit) = refFiles st"
    by (simp add: replaceWithText_def)
qed

lemma negated_iff:
  "(map_option getOperatorToken
      (Option.bind (getParentIfKind PrefixUnaryExpression st p) (lookupNode st))
        = Some ExclamationToken) \<longleftrightarrow> negationOf st p \<noteq> None"
  by (cases "getParent p"; cases "lookupNode st (the (getParent p))")
     (auto simp add: getParentIfKind_def negationOf_def)

lemma negationOf_parent:
  "negationOf st p = Some g \<Longrightarrow> getParentIfKind PrefixUnaryExpression st p = Some g"
  by (auto simp add: getParentIfKind_def negationOf_def split: option.splits if_splits)

lemma replaceRef_call:
  assumes "lookupNode st r = Some refNode" and "getParent r = Some p"
    and "lookupNode st p = Some call" and "getKind call = CallExpression"
  shows "replaceRef r st =
     Inr (let st' = replaceWithText st (targetOf st p) (literalOf st p)
          in case getParent (targetOf st p) of
               None \<Rightarrow> st'
             | Some newParent \<Rightarrow>
                 st'\<lparr>workList := setAdd newParent (workList st'),
                     refFiles := setAdd (fst r) (refFiles st')\<rparr>)"
proof (cases "negationOf st p")
  case None
  then show ?thesis
    using assms negated_iff[of st p]
    by (simp add: replaceRef_def targetOf_def literalOf_def Let_def split: option.splits
          del: map_option_eq_Some)
next
  case (Some g)
  then show ?thesis
    using assms negated_iff[of st p] negationOf_parent[OF Some]
    by (simp add: replaceRef_def targetOf_def literalOf_def Let_def split: option.splits
          del: map_option_eq_Some)
qed

lemma replaceRef_skip:
  assumes "lookupNode st r = Some refNode"
    and "\<forall>p. getParent r = Some p \<longrightarrow> map_option getKind (lookupNode st p) \<noteq> Some CallExpression"
  shows "replaceRef r st = Inr st"
  using assms by (simp add: replaceRef_def split: option.splits)


lemma step_files:
  "files (case np of None \<Rightarrow> st' | Some newParent \<Rightarrow> st'\<lparr>workList := w newParent, refFiles := f\<rparr>)
     = files st'"
  by (cases np) simp_all

lemma negationOf_SomeD:
  "negationOf st p = Some g \<Longrightarrow> getParent p = Some g \<and> (\<exists>neg. lookupNode st g = Some neg)"
  by (auto simp add: negationOf_def split: option.splits if_splits)

lemma nodeAt_snoc:
  "nodeAt n p = Some c \<Longrightarrow> nodeAt n (p @ [i]) = Some x \<Longrightarrow>
   i < length (getChildren c) \<and> getChildren c ! i = x"
  by (induction p arbitrary: n) (auto split: if_splits)

lemma forEachRef_skip:
  assumes "\<forall>r \<in> set rs. lookupNode st r \<noteq> None \<and>
     (\<forall>p. getParent r = Some p \<longrightarrow> map_option getKind (lookupNode st p) \<noteq> Some CallExpression)"
  shows "forEachRef rs st = Inr st"
  using assms
proof (induction rs)
  case Nil
  then show ?case by simp
next
  case (Cons r rs)
  from Cons.prems obtain n where "lookupNode st r = Some n" by auto
  with Cons.prems have "replaceRef r st = Inr st"
    by (intro replaceRef_skip) auto
  with Cons show ?case by simp
qed

lemma isPrefix_iff: "isPrefix q p \<longleftrightarrow> (\<exists>s. p = q @ s)"
proof
  assume "isPrefix q p"
  then have "p = q @ drop (length q) p"
    unfolding isPrefix_def by (metis append_take_drop_id)
  then show "\<exists>s. p = q @ s" ..
next
  assume "\<exists>s. p = q @ s"
  then show "isPrefix q p" by (auto simp add: isPrefix_def)
qed

lemma isPrefix_butlast: "isPrefix (butlast p) p"
  unfolding isPrefix_iff by (cases "p = []") (auto intro: exI[of _ "[last p]"])

lemma isPrefix_trans: "isPrefix a b \<Longrightarrow> isPrefix b c \<Longrightarrow> isPrefix a c"
  unfolding isPrefix_iff by auto

lemma kind_replaceAt:
  "\<not> isPrefix t q \<Longrightarrow> nodeAt n t \<noteq> None \<Longrightarrow>
   map_option getKind (nodeAt (replaceAt n t new) q) = map_option getKind (nodeAt n q)"
proof (induction t arbitrary: n q)
  case Nil
  then show ?case by (simp add: isPrefix_def)
next
  case (Cons i ts)
  obtain k ps where n: "n = Node k ps" by (cases n)
  from Cons.prems(2) n have i: "i < length (childrenOfPieces ps)"
    and sub: "nodeAt (childrenOfPieces ps ! i) ts \<noteq> None"
    by (simp_all split: if_splits)
  show ?case
  proof (cases q)
    case Nil
    then show ?thesis by (simp add: n)
  next
    case (Cons j qs)
    show ?thesis
    proof (cases "j = i")
      case True
      with Cons Cons.prems(1) have "\<not> isPrefix ts qs" by (simp add: isPrefix_def)
      from Cons.IH[OF this sub] show ?thesis
        using i True Cons by (simp add: n updChild_children)
    next
      case False
      then show ?thesis using i Cons by (simp add: n updChild_children)
    qed
  qed
qed

lemma replaceRef_shape:
  assumes "replaceRef r st = Inr st'"
  shows "st' = st \<and> lookupNode st r \<noteq> None \<and>
           (\<forall>p. getParent r = Some p \<longrightarrow> map_option getKind (lookupNode st p) \<noteq> Some CallExpression)
         \<or> (\<exists>t lit. lookupNode st t \<noteq> None \<and> fst t = fst r \<and> isPrefix (snd t) (snd r) \<and>
               files st' = files (replaceWithText st t lit) \<and>
               removed st' = removed st @ [t])"
proof (cases "lookupNode st r")
  case None
  with assms show ?thesis by (simp add: replaceRef_def)
next
  case (Some refNode)
  show ?thesis
  proof (cases "\<exists>p call. getParent r = Some p \<and> lookupNode st p = Some call \<and> getKind call = CallExpression")
    case False
    then have h: "\<forall>p. getParent r = Some p \<longrightarrow> map_option getKind (lookupNode st p) \<noteq> Some CallExpression"
      by auto
    from replaceRef_skip[OF Some h] assms Some h show ?thesis by simp
  next
    case True
    then obtain p call where p: "getParent r = Some p" "lookupNode st p = Some call"
       "getKind call = CallExpression" by blast
    let ?t = "targetOf st p"
    from replaceRef_call[OF Some p] assms
    have st': "st' = (let s = replaceWithText st ?t (literalOf st p)
          in case getParent ?t of
               None \<Rightarrow> s
             | Some newParent \<Rightarrow>
                 s\<lparr>workList := setAdd newParent (workList s),
                     refFiles := setAdd (fst r) (refFiles s)\<rparr>)" by simp
    have f: "files st' = files (replaceWithText st ?t (literalOf st p))"
      unfolding st' Let_def by (rule step_files)
    have rm: "removed st' = removed st @ [?t]"
      unfolding st' Let_def by (simp add: replaceWithText_def split: option.splits)
    have pp: "fst p = fst r" "snd p = butlast (snd r)" "snd r \<noteq> []"
      using p(1) by (auto simp add: getParent_def split: if_splits)
    have pre_p: "isPrefix (snd p) (snd r)"
      using pp isPrefix_butlast[of "snd r"] by simp
    have tl: "lookupNode st ?t \<noteq> None \<and> fst ?t = fst r \<and> isPrefix (snd ?t) (snd r)"
    proof (cases "negationOf st p")
      case None
      then show ?thesis using p pp pre_p by (simp add: targetOf_def)
    next
      case (Some g)
      from negationOf_SomeD[OF Some] obtain neg where
        g: "getParent p = Some g" "lookupNode st g = Some neg" by blast
      have "fst g = fst p" "snd g = butlast (snd p)"
        using g(1) by (auto simp add: getParent_def split: if_splits)
      then have "isPrefix (snd g) (snd r)"
        using pre_p isPrefix_butlast[of "snd p"] isPrefix_trans by metis
      then show ?thesis using Some g pp \<open>fst g = fst p\<close> by (simp add: targetOf_def)
    qed
    with f rm show ?thesis by blast
  qed
qed

lemma isForgotten_iff:
  "isForgotten st r \<longleftrightarrow> (\<exists>q \<in> set (removed st). fst q = fst r \<and> isPrefix (snd q) (snd r))"
  by (simp add: isForgotten_def list_ex_iff isPrefix_def)

lemma hasCallParent_iff:
  "\<not> hasCallParent st r \<longleftrightarrow>
   (\<forall>p. getParent r = Some p \<longrightarrow> map_option getKind (lookupNode st p) \<noteq> Some CallExpression)"
  by (simp add: hasCallParent_def split: option.splits)

lemma kind_after_replace:
  assumes t: "lookupNode st t \<noteq> None"
    and f: "files st' = files (replaceWithText st t lit)"
    and rm: "removed st' = removed st @ [t]"
    and q: "\<not> (fst t = fst q \<and> isPrefix (snd t) (snd q))"
  shows "map_option getKind (lookupNode st' q) = map_option getKind (lookupNode st q)"
proof -
  from t obtain old where "lookupNode st t = Some old" by auto
  from lookupNode_SomeD[OF this] have ti: "fst t < length (files st)"
    and tn: "nodeAt (root (files st ! fst t)) (snd t) \<noteq> None" by simp_all
  have fg: "isForgotten st' q \<longleftrightarrow> isForgotten st q"
    using q rm by (auto simp add: isForgotten_iff)
  have len: "length (files st') = length (files st)"
    by (simp add: f replaceWithText_def)
  show ?thesis
  proof (cases "isForgotten st q \<or> length (files st) \<le> fst q")
    case True
    then show ?thesis using fg len by (auto simp add: lookupNode_def)
  next
    case False
    show ?thesis
    proof (cases "fst q = fst t")
      case True
      with q have np: "\<not> isPrefix (snd t) (snd q)" by simp
      have "root (files st' ! fst q) = replaceAt (root (files st ! fst t)) (snd t) (parseText lit)"
        using True ti by (simp add: f replaceWithText_def)
      with kind_replaceAt[OF np tn, of "parseText lit"] show ?thesis
        using False fg len True by (simp add: lookupNode_def)
    next
      case False2: False
      then have "files st' ! fst q = files st ! fst q"
        by (simp add: f replaceWithText_def)
      then show ?thesis using False fg len by (simp add: lookupNode_def)
    qed
  qed
qed

lemma step_settles:
  assumes "replaceRef r st = Inr st'"
  shows "settled st' r"
  using replaceRef_shape[OF assms]
  by (auto simp add: settled_def hasCallParent_iff isForgotten_iff)

lemma step_preserves:
  assumes s: "settled st r" and step: "replaceRef r' st = Inr st'"
  shows "settled st' r"
proof -
  from replaceRef_shape[OF step] consider "st' = st"
    | t lit where "lookupNode st t \<noteq> None" "files st' = files (replaceWithText st t lit)"
        "removed st' = removed st @ [t]"
    by blast
  then show ?thesis
  proof cases
    case 1
    with s show ?thesis by simp
  next
    case 2
    show ?thesis
    proof (cases "isForgotten st r \<or> (fst t = fst r \<and> isPrefix (snd t) (snd r))")
      case True
      then have "isForgotten st' r" using 2(3) by (auto simp add: isForgotten_iff)
      then show ?thesis by (simp add: settled_def)
    next
      case False
      with s have alive: "lookupNode st r \<noteq> None" and nc: "\<not> hasCallParent st r"
        by (auto simp add: settled_def)
      from False have nr: "\<not> (fst t = fst r \<and> isPrefix (snd t) (snd r))" by simp
      have a': "lookupNode st' r \<noteq> None"
        using kind_after_replace[OF 2 nr] alive by (metis option.map_disc_iff)
      have "\<not> hasCallParent st' r"
      proof (cases "getParent r")
        case None
        then show ?thesis by (simp add: hasCallParent_def)
      next
        case (Some p)
        then have pp: "fst p = fst r" "snd p = butlast (snd r)"
          by (auto simp add: getParent_def split: if_splits)
        have "\<not> (fst t = fst p \<and> isPrefix (snd t) (snd p))"
          using nr pp isPrefix_butlast[of "snd r"] isPrefix_trans by metis
        from kind_after_replace[OF 2 this] nc Some show ?thesis
          by (simp add: hasCallParent_def)
      qed
      with a' show ?thesis by (simp add: settled_def)
    qed
  qed
qed

lemma run_settles:
  assumes "forEachRef rs st = Inr st'" and "\<forall>r \<in> S. settled st r"
  shows "\<forall>r \<in> S \<union> set rs. settled st' r"
  using assms
proof (induction rs arbitrary: st S)
  case Nil
  then show ?case by simp
next
  case (Cons r rs)
  from Cons.prems(1) obtain st1 where step: "replaceRef r st = Inr st1"
    and rest: "forEachRef rs st1 = Inr st'"
    by (auto split: sum.splits)
  have "\<forall>x \<in> insert r S. settled st1 x"
    using step_settles[OF step] step_preserves[OF _ step] Cons.prems(2) by blast
  from Cons.IH[OF rest this] show ?case by simp
qed

lemma lookup_fresh:
  "\<not> isForgotten st q \<Longrightarrow> lookupNode (initial (files st)) q = lookupNode st q"
  by (simp add: lookupNode_def initial_def isForgotten_def)

lemma forgotten_parent:
  assumes "getParent r = Some p" "isForgotten st p"
  shows "isForgotten st r"
proof -
  from assms(1) have pp: "fst p = fst r" "snd p = butlast (snd r)"
    by (auto simp add: getParent_def split: if_splits)
  from assms(2) obtain q where "q \<in> set (removed st)" "fst q = fst p" "isPrefix (snd q) (snd p)"
    by (auto simp add: isForgotten_iff)
  then show ?thesis
    using pp isPrefix_butlast[of "snd r"] isPrefix_trans
    unfolding isForgotten_iff by metis
qed

lemma survivors_skip:
  assumes "forEachRef rs (initial project) = Inr st'"
    and "r \<in> set rs" and "\<not> isForgotten st' r"
  shows "lookupNode (initial (files st')) r \<noteq> None \<and>
     (\<forall>p. getParent r = Some p \<longrightarrow>
        map_option getKind (lookupNode (initial (files st')) p) \<noteq> Some CallExpression)"
proof -
  from run_settles[OF assms(1), of "{}"] assms(2) have "settled st' r" by simp
  with assms(3) have a: "lookupNode st' r \<noteq> None" and nc: "\<not> hasCallParent st' r"
    by (auto simp add: settled_def)
  have "\<And>p. getParent r = Some p \<Longrightarrow> lookupNode (initial (files st')) p = lookupNode st' p"
    using forgotten_parent assms(3) lookup_fresh by blast
  with a nc lookup_fresh[OF assms(3)] show ?thesis
    by (simp add: hasCallParent_iff)
qed






text \<open>
  C8. One pass of the loop body on a reference that is in the tree and whose parent is not
  a call expression returns the state as it was: the same files, the same set of modified
  nodes and the same list of files.
\<close>

theorem non_call_reference_untouched:
  assumes "lookupNode st r = Some refNode"
    and "\<forall>p. getParent r = Some p \<longrightarrow> map_option getKind (lookupNode st p) \<noteq> Some CallExpression"
  shows "replaceRef r st = Inr st"
  using assms by (simp add: replaceRef_def split: option.splits)

theorem non_call_reference_untouched_witness:
  "lookupNode (initial [usesFile]) (0, [3, 0, 0, 1]) = Some (ident ''wrapper'') \<and>
   getParent (0, [3, 0, 0, 1]) = Some (0, [3, 0, 0]) \<and>
   map_option getKind (lookupNode (initial [usesFile]) (0, [3, 0, 0])) = Some VariableDeclaration \<and>
   replaceRef (0, [3, 0, 0, 1]) (initial [usesFile]) = Inr (initial [usesFile])"
proof -
  have h1: "lookupNode (initial [usesFile]) (0, [3, 0, 0, 1]) = Some (ident ''wrapper'')"
    by code_simp
  have p: "getParent (0, [3, 0, 0, 1]) = Some (0, [3, 0, 0])" by code_simp
  have k: "map_option getKind (lookupNode (initial [usesFile]) (0, [3, 0, 0]))
             = Some VariableDeclaration"
    by code_simp
  have h2: "\<forall>q. getParent (0, [3, 0, 0, 1]) = Some q \<longrightarrow>
      map_option getKind (lookupNode (initial [usesFile]) q) \<noteq> Some CallExpression"
    unfolding p using k by auto
  show ?thesis
    using non_call_reference_untouched[OF h1 h2] h1 p k by simp
qed

text \<open>
  C7. Idempotence. After a run that returned, the references that the run did not remove
  are in the tree and none of them has a call expression as parent, and a second run on
  them changes nothing and returns the empty set of modified nodes and the empty list of
  files. The same holds for any references of the new project that are in the tree and
  have no call expression as parent.
\<close>

theorem rerun_is_empty:
  assumes "replaceFunCallWithFalse project refSymbols = Inr (project', modified, touched)"
  shows "replaceFunCallWithFalse project' [survivors project refSymbols] = Inr (project', [], []) \<and>
    (\<forall>refSymbols'.
       (\<forall>r \<in> set (concat refSymbols'). lookupNode (initial project') r \<noteq> None \<and>
          (\<forall>p. getParent r = Some p \<longrightarrow>
             map_option getKind (lookupNode (initial project') p) \<noteq> Some CallExpression)) \<longrightarrow>
       replaceFunCallWithFalse project' refSymbols' = Inr (project', [], []))"
proof -
  from assms obtain st' where run: "forEachRef (concat refSymbols) (initial project) = Inr st'"
    and p': "project' = files st'"
    by (auto simp add: replaceFunCallWithFalse_def split: sum.splits)
  have sv: "survivors project refSymbols = filter (\<lambda>r. \<not> isForgotten st' r) (concat refSymbols)"
    by (simp add: survivors_def run)
  have gen: "\<And>rs. (\<forall>r \<in> set rs. lookupNode (initial project') r \<noteq> None \<and>
          (\<forall>p. getParent r = Some p \<longrightarrow>
             map_option getKind (lookupNode (initial project') p) \<noteq> Some CallExpression)) \<Longrightarrow>
       forEachRef rs (initial project') = Inr (initial project')"
    by (rule forEachRef_skip)
  have h: "\<forall>r \<in> set (survivors project refSymbols). lookupNode (initial project') r \<noteq> None \<and>
          (\<forall>p. getParent r = Some p \<longrightarrow>
             map_option getKind (lookupNode (initial project') p) \<noteq> Some CallExpression)"
  proof
    fix r assume "r \<in> set (survivors project refSymbols)"
    then have "r \<in> set (concat refSymbols)" "\<not> isForgotten st' r"
      unfolding sv by simp_all
    from survivors_skip[OF run this] show "lookupNode (initial project') r \<noteq> None \<and>
          (\<forall>p. getParent r = Some p \<longrightarrow>
             map_option getKind (lookupNode (initial project') p) \<noteq> Some CallExpression)"
      unfolding p' .
  qed
  have "forEachRef (survivors project refSymbols) (initial project') = Inr (initial project')"
    by (rule gen[OF h])
  then have 1: "replaceFunCallWithFalse project' [survivors project refSymbols] = Inr (project', [], [])"
    by (simp add: replaceFunCallWithFalse_def initial_def)
  have 2: "\<forall>refSymbols'.
       (\<forall>r \<in> set (concat refSymbols'). lookupNode (initial project') r \<noteq> None \<and>
          (\<forall>p. getParent r = Some p \<longrightarrow>
             map_option getKind (lookupNode (initial project') p) \<noteq> Some CallExpression)) \<longrightarrow>
       replaceFunCallWithFalse project' refSymbols' = Inr (project', [], [])"
    using gen by (simp add: replaceFunCallWithFalse_def initial_def)
  from 1 2 show ?thesis by blast
qed

theorem rerun_is_empty_witness:
  "replaceFunCallWithFalse [flagsFile] checkXReferences =
     Inr ([flagsFileAfter], [(0, [2])], [0]) \<and>
   survivors [flagsFile] checkXReferences = [(0, [1, 0])] \<and>
   replaceFunCallWithFalse [flagsFileAfter] [survivors [flagsFile] checkXReferences] =
     Inr ([flagsFileAfter], [], []) \<and>
   lookupNode (initial [flagsFileAfter]) (0, [1, 0]) \<noteq> None \<and>
   map_option getKind (lookupNode (initial [flagsFileAfter]) (0, [1])) = Some FunctionDeclaration \<and>
   replaceFunCallWithFalse [flagsFileAfter] [ [(0, [1, 0])]] = Inr ([flagsFileAfter], [], [])"
proof -
  have r: "replaceFunCallWithFalse [flagsFile] checkXReferences =
     Inr ([flagsFileAfter], [(0, [2])], [0])"
    by code_simp
  have s: "survivors [flagsFile] checkXReferences = [(0, [1, 0])]"
    by code_simp
  have a1: "lookupNode (initial [flagsFileAfter]) (0, [1, 0]) \<noteq> None" by code_simp
  have a2: "map_option getKind (lookupNode (initial [flagsFileAfter]) (0, [1]))
     = Some FunctionDeclaration"
    by code_simp
  have h: "\<forall>r \<in> set (concat [ [(0, [1, 0])]]).
     lookupNode (initial [flagsFileAfter]) r \<noteq> None \<and>
     (\<forall>p. getParent r = Some p \<longrightarrow>
        map_option getKind (lookupNode (initial [flagsFileAfter]) p) \<noteq> Some CallExpression)"
    using a1 a2 by (auto simp add: getParent_def)
  from rerun_is_empty[OF r] have
    1: "replaceFunCallWithFalse [flagsFileAfter] [survivors [flagsFile] checkXReferences] =
        Inr ([flagsFileAfter], [], [])"
    and 2: "\<forall>refSymbols'.
       (\<forall>r \<in> set (concat refSymbols'). lookupNode (initial [flagsFileAfter]) r \<noteq> None \<and>
          (\<forall>p. getParent r = Some p \<longrightarrow>
             map_option getKind (lookupNode (initial [flagsFileAfter]) p)
               \<noteq> Some CallExpression)) \<longrightarrow>
       replaceFunCallWithFalse [flagsFileAfter] refSymbols' = Inr ([flagsFileAfter], [], [])"
    by blast+
  from 2 h have 3: "replaceFunCallWithFalse [flagsFileAfter] [ [(0, [1, 0])]] =
      Inr ([flagsFileAfter], [], [])"
    by blast
  from r s 1 a1 a2 3 show ?thesis by blast
qed

text \<open>
  C10 as the code has it. The loop body looks only at the kind of the parent: a reference
  that is an argument of a call (child number \<open>i > 0\<close> of the call expression) is
  treated as a call of the wrapper. The enclosing call is replaced by \<^verbatim>\<open>false\<close>, or,
  when that call is the operand of \<^verbatim>\<open>!\<close>, the negation is replaced by \<^verbatim>\<open>true\<close>;
  the parent of the replaced node joins the set of modified nodes and the file joins the
  list of files.
\<close>

theorem argument_reference_replaced:
  assumes "lookupNode st (fi, p @ [i]) = Some refNode" and "0 < i"
    and "lookupNode st (fi, p) = Some call" and "getKind call = CallExpression"
  shows "refNode \<in> set (getArguments call) \<and>
   (\<exists>st' target lit old pre post.
     replaceRef (fi, p @ [i]) st = Inr st' \<and>
     (target, lit) = (case negationOf st (fi, p) of
                        None \<Rightarrow> ((fi, p), ''false'') | Some g \<Rightarrow> (g, ''true'')) \<and>
     lookupNode st target = Some old \<and>
     getText (root (files st ! fi)) = pre @ getText old @ post \<and>
     getText (root (files st' ! fi)) = pre @ lit @ post \<and>
     (\<forall>newParent. getParent target = Some newParent \<longrightarrow>
        newParent \<in> set (workList st') \<and> fi \<in> set (refFiles st')))"
proof -
  let ?r = "(fi, p @ [i])" and ?p = "(fi, p)"
  have par: "getParent ?r = Some ?p" by (simp add: getParent_def)
  define st' where "st' = (let s = replaceWithText st (targetOf st ?p) (literalOf st ?p)
          in case getParent (targetOf st ?p) of
               None \<Rightarrow> s
             | Some newParent \<Rightarrow>
                 s\<lparr>workList := setAdd newParent (workList s),
                     refFiles := setAdd (fst ?r) (refFiles s)\<rparr>)"
  have run: "replaceRef ?r st = Inr st'"
    unfolding st'_def by (rule replaceRef_call[OF assms(1) par assms(3,4)])
  have fs: "files st' = files (replaceWithText st (targetOf st ?p) (literalOf st ?p))"
    unfolding st'_def Let_def by (rule step_files)
  have wl: "\<forall>np. getParent (targetOf st ?p) = Some np \<longrightarrow>
        np \<in> set (workList st') \<and> fi \<in> set (refFiles st')"
    by (auto simp add: st'_def Let_def setAdd_def)
  have tl: "(targetOf st ?p, literalOf st ?p) =
      (case negationOf st ?p of None \<Rightarrow> (?p, ''false'') | Some g \<Rightarrow> (g, ''true''))"
    by (simp add: targetOf_def literalOf_def split: option.splits)
  obtain old where old: "lookupNode st (targetOf st ?p) = Some old"
    using assms(3) negationOf_SomeD[of st ?p]
    by (cases "negationOf st ?p") (auto simp add: targetOf_def)
  have tf: "fst (targetOf st ?p) = fi"
    using negationOf_SomeD[of st ?p] getParent_fst[of ?p]
    by (cases "negationOf st ?p") (auto simp add: targetOf_def)
  from replaceWithText_effect(1)[OF old, of "literalOf st ?p"] obtain pre post where
    "getText (root (files st ! fi)) = pre @ getText old @ post"
    "getText (root (files st' ! fi)) = pre @ literalOf st ?p @ post"
    unfolding fs tf by blast
  with run tl old wl have main: "\<exists>st' target lit old pre post.
     replaceRef (fi, p @ [i]) st = Inr st' \<and>
     (target, lit) = (case negationOf st (fi, p) of
                        None \<Rightarrow> ((fi, p), ''false'') | Some g \<Rightarrow> (g, ''true'')) \<and>
     lookupNode st target = Some old \<and>
     getText (root (files st ! fi)) = pre @ getText old @ post \<and>
     getText (root (files st' ! fi)) = pre @ lit @ post \<and>
     (\<forall>newParent. getParent target = Some newParent \<longrightarrow>
        newParent \<in> set (workList st') \<and> fi \<in> set (refFiles st'))"
    by blast
  from lookupNode_SomeD[OF assms(1)] lookupNode_SomeD[OF assms(3)]
  have "i < length (getChildren call) \<and> getChildren call ! i = refNode"
    by (auto dest: nodeAt_snoc)
  with assms(2) have arg: "refNode \<in> set (getArguments call)"
    by (cases "getChildren call"; cases i) (auto simp add: getArguments_def)
  from arg main show ?thesis by blast
qed


theorem argument_reference_replaced_witness:
  "lookupNode (initial [usesFile]) (0, [4, 0] @ [1]) = Some (ident ''wrapper'') \<and>
   (0::nat) < 1 \<and>
   lookupNode (initial [usesFile]) (0, [4, 0]) = Some runCall \<and>
   getKind runCall = CallExpression \<and>
   ident ''wrapper'' \<in> set (getArguments runCall) \<and>
   (\<exists>st' pre post.
      replaceRef (0, [4, 0] @ [1]) (initial [usesFile]) = Inr st' \<and>
      getText (root usesFile) = pre @ ''run(wrapper)'' @ post \<and>
      getText (root (files st' ! 0)) = pre @ ''false'' @ post \<and>
      (0, [4]) \<in> set (workList st') \<and> 0 \<in> set (refFiles st'))"
proof -
  have h1: "lookupNode (initial [usesFile]) (0, [4, 0] @ [1]) = Some (ident ''wrapper'')"
    by code_simp
  have h2: "(0::nat) < 1" by simp
  have h3: "lookupNode (initial [usesFile]) (0, [4, 0]) = Some runCall" by code_simp
  have h4: "getKind runCall = CallExpression" by code_simp
  have n: "negationOf (initial [usesFile]) (0, [4, 0]) = None" by code_simp
  have t: "getText runCall = ''run(wrapper)''" by code_simp
  have f: "files (initial [usesFile]) ! 0 = usesFile" by (simp add: initial_def)
  have g: "getParent (0, [4, 0]) = Some (0, [4])" by code_simp
  from argument_reference_replaced[OF h1 h2 h3 h4]
  have arg: "ident ''wrapper'' \<in> set (getArguments runCall)" by blast
  from argument_reference_replaced[OF h1 h2 h3 h4] obtain st' old pre post where
    "replaceRef (0, [4, 0] @ [1]) (initial [usesFile]) = Inr st'"
    "lookupNode (initial [usesFile]) (0, [4, 0]) = Some old"
    "getText (root (files (initial [usesFile]) ! 0)) = pre @ getText old @ post"
    "getText (root (files st' ! 0)) = pre @ ''false'' @ post"
    "\<forall>newParent. getParent (0, [4, 0]) = Some newParent \<longrightarrow>
        newParent \<in> set (workList st') \<and> 0 \<in> set (refFiles st')"
    unfolding n by auto
  then have "\<exists>st' pre post.
      replaceRef (0, [4, 0] @ [1]) (initial [usesFile]) = Inr st' \<and>
      getText (root usesFile) = pre @ ''run(wrapper)'' @ post \<and>
      getText (root (files st' ! 0)) = pre @ ''false'' @ post \<and>
      (0, [4]) \<in> set (workList st') \<and> 0 \<in> set (refFiles st')"
    using h3 t f g by auto
  with h1 h2 h3 h4 arg show ?thesis by blast
qed

text \<open>
  C10 as stated fails: in \<^verbatim>\<open>!run(wrapper);\<close> the wrapper is an argument of the call
  of \<^verbatim>\<open>run\<close>, and the run leaves \<^verbatim>\<open>true;\<close>, not \<^verbatim>\<open>false\<close>; the node recorded as
  modified is the statement around the new literal.
\<close>

theorem negated_argument_counterexample:
  "replaceFunCallWithFalse [usesFile] [ [(0, [5, 0, 0, 1])]] =
     Inr ([usesOf [exprStatement (notOf wrapperCall), exprStatement wrapperCall,
                   constStatement ''x'' wrapperCall, constStatement ''f'' (ident ''wrapper''),
                   exprStatement runCall, exprStatement (parseText ''true'')]],
          [(0, [5])], [0]) \<and>
   getText (exprStatement (notOf runCall)) = ''!run(wrapper);'' \<and>
   getText (exprStatement (parseText ''true'')) = ''true;''"
  by code_simp

lemma two_orders:
  assumes "distinct xs" and "set xs = {a, b}" and "a \<noteq> b"
  shows "xs = [a, b] \<or> xs = [b, a]"
proof -
  from assms have "length xs = 2"
    using distinct_card[of xs] by simp
  then obtain x y where xs: "xs = [x, y]"
    by (cases xs; cases "tl xs") auto
  with assms show ?thesis by auto
qed

lemma replaceFunCallWithFalse_concat:
  "replaceFunCallWithFalse project refSymbols = replaceFunCallWithFalse project [concat refSymbols]"
  by (simp add: replaceFunCallWithFalse_def)

text \<open>
  C4. The example project, with the threshold at 1 January 2024 (1704067200000 ms). On
  every host whose validator accepts the identifier and whose parser reads the text of the
  second argument, quotes included, as a time before the threshold, the locator returns
  exactly the declaration of \<^verbatim>\<open>checkX\<close> with its identifier. The references of that
  declaration are the identifiers named \<^verbatim>\<open>checkX\<close>, in whatever order and grouping
  the language service reports them; the replacement on them turns
  \<^verbatim>\<open>if (!checkX()) { doWork(); }\<close> into \<^verbatim>\<open>if (true) { doWork(); }\<close>, leaves the
  rest of the file as it was and reports the statement and the file as modified.
\<close>

theorem end_to_end_checkX:
  assumes "uuidValidate h ''3fa85f64-5717-4562-b3fc-2c963f66afa6''"
    and "dateParse h ([CHR 0x22] @ ''2023-01-01'' @ [CHR 0x22]) = Time t"
    and "t < 1704067200000"
    and "distinct (concat refSymbols)"
    and "set (concat refSymbols) =
           set (identifiersNamed (getSourceFiles exampleProject) (functionName (flagsFile, 1)))"
  shows "fst (findKSDeclaration h exampleProject scanOptions) =
           \<lparr>ksDecls = [(flagsFile, 1)], guids = [''3fa85f64-5717-4562-b3fc-2c963f66afa6'']\<rparr> \<and>
         functionName (flagsFile, 1) = ''checkX'' \<and>
         replaceFunCallWithFalse (getSourceFiles exampleProject) refSymbols =
           Inr ([flagsFileAfter], [(0, [2])], [0]) \<and>
         map_option getText (nodeAt (root flagsFile) [2]) = Some ''if (!checkX()) { doWork(); }'' \<and>
         map_option getText (nodeAt (root flagsFileAfter) [2]) = Some ''if (true) { doWork(); }''"
proof -
  have c: "concat (map funDeclsOf (fst (selectFiles exampleProject (ksFilePath scanOptions))))
             = [(flagsFile, 1)]"
    by code_simp
  have k: "ksCall (declNode (flagsFile, 1)) = Some checkXCall" by code_simp
  have g: "guidOf checkXCall = Some ''3fa85f64-5717-4562-b3fc-2c963f66afa6''" by code_simp
  have a: "argumentText checkXCall 1 = Some ([CHR 0x22] @ ''2023-01-01'' @ [CHR 0x22])"
    by code_simp
  have o: "targetId scanOptions = None" "thresholdDate scanOptions = Some (Time 1704067200000)"
    by (simp_all add: scanOptions_def)
  have ds: "dateStringOf h (flagsFile, 1) checkXCall = Some ([CHR 0x22] @ ''2023-01-01'' @ [CHR 0x22])"
    using assms(2) unfolding dateStringOf_def a by simp
  have sel: "selected h None (Time 1704067200000) (flagsFile, 1)"
    using selected_scan[of None "(flagsFile, 1)" checkXCall h "Time 1704067200000"] k g ds assms(1-3)
    by (simp del: One_nat_def)
  have dg: "declGuid (flagsFile, 1) = ''3fa85f64-5717-4562-b3fc-2c963f66afa6''"
    by (simp add: declGuid_def k g del: One_nat_def)
  have 1: "fst (findKSDeclaration h exampleProject scanOptions) =
           \<lparr>ksDecls = [(flagsFile, 1)], guids = [''3fa85f64-5717-4562-b3fc-2c963f66afa6'']\<rparr>"
    by (simp add: findKSDeclaration_eq c o sel dg del: One_nat_def)
  have n: "functionName (flagsFile, 1) = ''checkX''" by code_simp
  have p: "getSourceFiles exampleProject = [flagsFile]" by (simp add: exampleProject_def)
  have ids: "identifiersNamed (getSourceFiles exampleProject) (functionName (flagsFile, 1)) =
      [(0, [1, 0]), (0, [2, 0, 0, 0])]"
    by code_simp
  have ne: "(0 :: nat, [1, 0 :: nat]) \<noteq> (0, [2, 0, 0, 0])" by simp
  from assms(5) have "set (concat refSymbols) = {(0, [1, 0]), (0, [2, 0, 0, 0])}"
    unfolding ids by simp
  from two_orders[OF assms(4) this ne]
  have "concat refSymbols = [(0, [1, 0]), (0, [2, 0, 0, 0])] \<or>
        concat refSymbols = [(0, [2, 0, 0, 0]), (0, [1, 0])]" .
  moreover have "replaceFunCallWithFalse [flagsFile] [ [(0, [1, 0]), (0, [2, 0, 0, 0])]] =
           Inr ([flagsFileAfter], [(0, [2])], [0])"
    by code_simp
  moreover have "replaceFunCallWithFalse [flagsFile] [ [(0, [2, 0, 0, 0]), (0, [1, 0])]] =
           Inr ([flagsFileAfter], [(0, [2])], [0])"
    by code_simp
  ultimately have 2: "replaceFunCallWithFalse (getSourceFiles exampleProject) refSymbols =
           Inr ([flagsFileAfter], [(0, [2])], [0])"
    unfolding p using replaceFunCallWithFalse_concat[of "[flagsFile]" refSymbols] by auto
  have 3: "map_option getText (nodeAt (root flagsFile) [2]) = Some ''if (!checkX()) { doWork(); }''"
    by code_simp
  have 4: "map_option getText (nodeAt (root flagsFileAfter) [2]) = Some ''if (true) { doWork(); }''"
    by code_simp
  from 1 n 2 3 4 show ?thesis by blast
qed

theorem end_to_end_checkX_witness:
  "uuidValidate exampleHost ''3fa85f64-5717-4562-b3fc-2c963f66afa6'' \<and>
   dateParse exampleHost ([CHR 0x22] @ ''2023-01-01'' @ [CHR 0x22]) = Time 1672531200000 \<and>
   (1672531200000 :: int) < 1704067200000 \<and>
   concat checkXReferences = [(0, [1, 0]), (0, [2, 0, 0, 0])] \<and>
   fst (findKSDeclaration exampleHost exampleProject scanOptions) =
     \<lparr>ksDecls = [(flagsFile, 1)], guids = [''3fa85f64-5717-4562-b3fc-2c963f66afa6'']\<rparr> \<and>
   replaceFunCallWithFalse (getSourceFiles exampleProject) checkXReferences =
     Inr ([flagsFileAfter], [(0, [2])], [0]) \<and>
   map_option getText (nodeAt (root flagsFileAfter) [2]) = Some ''if (true) { doWork(); }''"
proof -
  have h1: "uuidValidate exampleHost ''3fa85f64-5717-4562-b3fc-2c963f66afa6''" by code_simp
  have h2: "dateParse exampleHost ([CHR 0x22] @ ''2023-01-01'' @ [CHR 0x22]) = Time 1672531200000"
    by code_simp
  have h3: "(1672531200000 :: int) < 1704067200000" by simp
  have c: "concat checkXReferences = [(0, [1, 0]), (0, [2, 0, 0, 0])]" by code_simp
  have h4: "distinct (concat checkXReferences)" unfolding c by simp
  have h5: "set (concat checkXReferences) =
           set (identifiersNamed (getSourceFiles exampleProject) (functionName (flagsFile, 1)))"
    by (simp add: checkXReferences_def)
  show ?thesis
    using end_to_end_checkX[OF h1 h2 h3 h4 h5] h1 h2 h3 c by blast
qed

end
